theory Spec2Isabelle
  imports Complex_Main
begin

section \<open>FX option calculator (p5_fx_option.py)\<close>

text \<open>
  The module prices a European FX option with the Garman-Kohlhagen formula. Its five
  functions are embedded below, one HOL definition for each. Exceptions are values: a
  function that can raise returns \<open>error + 'a\<close>, with \<open>Inl\<close> for the exception.
  The year fraction is a sum of at most 9998 whole years and a quotient of days by 365,
  which a double holds up to rounding; it is a real number here. The other numbers are
  Python floats, modelled below with the range of doubles written out.
\<close>

datatype error = ValueError | ZeroDivisionError | OverflowError

subsection \<open>Calendar dates: \<open>datetime.date\<close>\<close>

text \<open>
  The module uses the class \<open>date\<close> of Python's standard library: its constructor,
  its three fields, its comparison and its subtraction. They are modelled after the
  reference implementation of \<open>datetime\<close>: a date is a triple of integers, the
  constructor checks the fields, comparison is that of the triples and subtraction is
  that of the proleptic Gregorian ordinals.
\<close>

record date =
  year :: int
  month :: int
  day :: int

definition MINYEAR :: int where
  "MINYEAR = 1"

definition MAXYEAR :: int where
  "MAXYEAR = 9999"

definition DAYS_IN_MONTH :: "int list" where
  "DAYS_IN_MONTH = [-1, 31, 28, 31, 30, 31, 30, 31, 31, 30, 31, 30, 31]"

definition DAYS_BEFORE_MONTH :: "int list" where
  "DAYS_BEFORE_MONTH = [-1, 0, 31, 59, 90, 120, 151, 181, 212, 243, 273, 304, 334]"

definition is_leap :: "int \<Rightarrow> bool" where
  "is_leap y = (y mod 4 = 0 \<and> (y mod 100 \<noteq> 0 \<or> y mod 400 = 0))"

definition days_before_year :: "int \<Rightarrow> int" where
  "days_before_year y = (let z = y - 1 in z * 365 + z div 4 - z div 100 + z div 400)"

definition days_in_month :: "int \<Rightarrow> int \<Rightarrow> int" where
  "days_in_month y m = (if m = 2 \<and> is_leap y then 29 else DAYS_IN_MONTH ! nat m)"

definition days_before_month :: "int \<Rightarrow> int \<Rightarrow> int" where
  "days_before_month y m =
     DAYS_BEFORE_MONTH ! nat m + (if 2 < m \<and> is_leap y then 1 else 0)"

definition ymd2ord :: "int \<Rightarrow> int \<Rightarrow> int \<Rightarrow> int" where
  "ymd2ord y m d = days_before_year y + days_before_month y m + d"

text \<open>The field check of the constructor; a date object always satisfies it.\<close>

definition check_date_fields :: "int \<Rightarrow> int \<Rightarrow> int \<Rightarrow> bool" where
  "check_date_fields y m d =
     (MINYEAR \<le> y \<and> y \<le> MAXYEAR \<and> 1 \<le> m \<and> m \<le> 12 \<and> 1 \<le> d \<and> d \<le> days_in_month y m)"

definition valid_date :: "date \<Rightarrow> bool" where
  "valid_date a = check_date_fields (year a) (month a) (day a)"

text \<open>\<open>date(y, m, d)\<close>: raises ValueError when a field is out of range.\<close>

definition date_new :: "int \<Rightarrow> int \<Rightarrow> int \<Rightarrow> error + date" where
  "date_new y m d =
     (if check_date_fields y m d then Inr \<lparr>year = y, month = m, day = d\<rparr>
      else Inl ValueError)"

definition toordinal :: "date \<Rightarrow> int" where
  "toordinal a = ymd2ord (year a) (month a) (day a)"

text \<open>\<open>a < b\<close>, \<open>a > b\<close> and \<open>a <= b\<close> compare the triples (year, month, day).\<close>

definition date_lt :: "date \<Rightarrow> date \<Rightarrow> bool" where
  "date_lt a b =
     (year a < year b \<or>
      (year a = year b \<and> (month a < month b \<or> (month a = month b \<and> day a < day b))))"

definition date_gt :: "date \<Rightarrow> date \<Rightarrow> bool" where
  "date_gt a b = date_lt b a"

definition date_le :: "date \<Rightarrow> date \<Rightarrow> bool" where
  "date_le a b = (date_lt a b \<or> a = b)"

text \<open>\<open>(a - b).days\<close>\<close>

definition days_between :: "date \<Rightarrow> date \<Rightarrow> int" where
  "days_between a b = toordinal a - toordinal b"

subsection \<open>\<open>years_apart\<close>\<close>

text \<open>
  The while loop of \<open>years_apart\<close>. Its state is the cursor \<open>date1\<close> and the counter
  \<open>num_years\<close>; \<open>next_year\<close> is always the date one calendar year after the cursor,
  built before the test of the loop, as the source builds it before the loop and at the
  end of each iteration. The construction can raise, which ends the loop with the error.
\<close>

function years_loop :: "date \<Rightarrow> date \<Rightarrow> real \<Rightarrow> error + date \<times> real" where
  "years_loop date1 date2 num_years =
     (case date_new (year date1 + 1) (month date1) (day date1) of
        Inl e \<Rightarrow> Inl e
      | Inr next_year \<Rightarrow>
          if date_le next_year date2 then years_loop next_year date2 (num_years + 1)
          else Inr (date1, num_years))"
  by pat_completeness auto
termination
proof (relation "measure (\<lambda>(date1, date2, num_years). nat (year date2 - year date1))")
  show "wf (measure (\<lambda>(date1, date2, num_years). nat (year date2 - year date1)))"
    by simp
next
  fix date1 date2 :: date and num_years :: real and next_year :: date
  assume new: "date_new (year date1 + 1) (month date1) (day date1) = Inr next_year"
    and le: "date_le next_year date2"
  from new have "year next_year = year date1 + 1"
    by (auto simp: date_new_def split: if_splits)
  moreover from le have "year next_year \<le> year date2"
    by (auto simp: date_le_def date_lt_def)
  ultimately show "((next_year, date2, num_years + 1), (date1, date2, num_years))
      \<in> measure (\<lambda>(date1, date2, num_years). nat (year date2 - year date1))"
    by simp
qed

definition years_apart :: "date \<Rightarrow> date \<Rightarrow> error + real" where
  "years_apart date1 date2 =
     (let (date1, date2) = (if date_gt date1 date2 then (date2, date1) else (date1, date2))
      in case years_loop date1 date2 0 of
           Inl e \<Rightarrow> Inl e
         | Inr (date1, num_years) \<Rightarrow>
             Inr (num_years + real_of_int (days_between date2 date1) / 365))"

text \<open>
  The same loop with a bound on the number of tests it may make: \<open>None\<close> when the bound
  is reached before the loop has ended.
\<close>

fun years_loop_fuel :: "nat \<Rightarrow> date \<Rightarrow> date \<Rightarrow> real \<Rightarrow> (error + date \<times> real) option" where
  "years_loop_fuel 0 date1 date2 num_years = None"
| "years_loop_fuel (Suc k) date1 date2 num_years =
     (case date_new (year date1 + 1) (month date1) (day date1) of
        Inl e \<Rightarrow> Some (Inl e)
      | Inr next_year \<Rightarrow>
          if date_le next_year date2 then years_loop_fuel k next_year date2 (num_years + 1)
          else Some (Inr (date1, num_years)))"

subsection \<open>Python floats\<close>

text \<open>
  A float is a double: a real number within the range of doubles, plus or minus
  infinity, or not-a-number. An arithmetic operation on two finite floats gives the exact
  result brought into the range by \<open>fl\<close>: infinite from half a unit in the last place
  above the largest double, that is from \<open>2 ^ 1024 - 2 ^ 970\<close>, and zero up to half the
  smallest positive double, \<open>2 ^ - 1075\<close>. The rounding of a result that stays within the
  range is not modelled, nor is the sign of zero. The arguments of the functions are
  floats; Python's integers are not modelled.
\<close>

datatype pyfloat = Finite real | PInf | NInf | NaN

definition overflow_threshold :: real where
  "overflow_threshold = 2 ^ 1024 - 2 ^ 970"

definition underflow_threshold :: real where
  "underflow_threshold = 1 / 2 ^ 1075"

definition fl :: "real \<Rightarrow> pyfloat" where
  "fl x =
     (if overflow_threshold \<le> x then PInf
      else if x \<le> - overflow_threshold then NInf
      else if \<bar>x\<bar> \<le> underflow_threshold then Finite 0
      else Finite x)"

text \<open>
  The arithmetic of IEEE 754 on the special values: an infinity absorbs a finite number,
  and the difference of two equal infinities, the product of zero and an infinity and
  the quotient of two infinities are not-a-number.
\<close>

fun float_sgn :: "pyfloat \<Rightarrow> real" where
  "float_sgn (Finite x) = sgn x"
| "float_sgn PInf = 1"
| "float_sgn NInf = - 1"
| "float_sgn NaN = 0"

fun float_neg :: "pyfloat \<Rightarrow> pyfloat" where
  "float_neg (Finite x) = Finite (- x)"
| "float_neg PInf = NInf"
| "float_neg NInf = PInf"
| "float_neg NaN = NaN"

fun float_add :: "pyfloat \<Rightarrow> pyfloat \<Rightarrow> pyfloat" where
  "float_add (Finite x) (Finite y) = fl (x + y)"
| "float_add NaN b = NaN"
| "float_add a NaN = NaN"
| "float_add PInf NInf = NaN"
| "float_add NInf PInf = NaN"
| "float_add PInf b = PInf"
| "float_add a PInf = PInf"
| "float_add NInf b = NInf"
| "float_add a NInf = NInf"

definition float_sub :: "pyfloat \<Rightarrow> pyfloat \<Rightarrow> pyfloat" where
  "float_sub a b = float_add a (float_neg b)"

fun float_mul :: "pyfloat \<Rightarrow> pyfloat \<Rightarrow> pyfloat" where
  "float_mul (Finite x) (Finite y) = fl (x * y)"
| "float_mul NaN b = NaN"
| "float_mul a NaN = NaN"
| "float_mul a b =
     (if float_sgn a * float_sgn b = 0 then NaN
      else if 0 < float_sgn a * float_sgn b then PInf else NInf)"

fun float_quot :: "pyfloat \<Rightarrow> pyfloat \<Rightarrow> pyfloat" where
  "float_quot (Finite x) (Finite y) = fl (x / y)"
| "float_quot NaN b = NaN"
| "float_quot a NaN = NaN"
| "float_quot (Finite x) b = Finite 0"
| "float_quot a (Finite y) = (if 0 < float_sgn a * sgn y then PInf else NInf)"
| "float_quot a b = NaN"

text \<open>
  True division \<open>a / b\<close> raises ZeroDivisionError when the divisor is zero, whatever
  the dividend; \<open>float_quot\<close> above is the quotient by a divisor that is not zero, and
  is used for such a divisor only. The power \<open>a ** 2\<close> raises OverflowError when the square of a finite
  float leaves the range; a square that underflows is zero.
\<close>

definition float_div :: "pyfloat \<Rightarrow> pyfloat \<Rightarrow> error + pyfloat" where
  "float_div a b = (if b = Finite 0 then Inl ZeroDivisionError else Inr (float_quot a b))"

fun float_pow2 :: "pyfloat \<Rightarrow> error + pyfloat" where
  "float_pow2 (Finite x) =
     (if overflow_threshold \<le> x * x then Inl OverflowError else Inr (fl (x * x)))"
| "float_pow2 NaN = Inr NaN"
| "float_pow2 a = Inr PInf"

text \<open>
  The functions of the module \<open>math\<close>: \<open>math.log\<close> raises ValueError unless its
  argument is positive, \<open>math.sqrt\<close> when it is negative, and \<open>math.exp\<close> raises
  OverflowError when the exponential of a finite float leaves the range; an exponential
  that underflows is zero. The logarithm and the square root of a double stay in range.
\<close>

fun math_log :: "pyfloat \<Rightarrow> error + pyfloat" where
  "math_log (Finite x) = (if x \<le> 0 then Inl ValueError else Inr (Finite (ln x)))"
| "math_log PInf = Inr PInf"
| "math_log NInf = Inl ValueError"
| "math_log NaN = Inr NaN"

fun math_sqrt :: "pyfloat \<Rightarrow> error + pyfloat" where
  "math_sqrt (Finite x) = (if x < 0 then Inl ValueError else Inr (Finite (sqrt x)))"
| "math_sqrt PInf = Inr PInf"
| "math_sqrt NInf = Inl ValueError"
| "math_sqrt NaN = Inr NaN"

fun math_exp :: "pyfloat \<Rightarrow> error + pyfloat" where
  "math_exp (Finite x) =
     (if overflow_threshold \<le> exp x then Inl OverflowError else Inr (fl (exp x)))"
| "math_exp PInf = Inr PInf"
| "math_exp NInf = Inr (Finite 0)"
| "math_exp NaN = Inr NaN"

text \<open>The comparison \<open>a <= b\<close> of two floats; it is false when one is not-a-number.\<close>

fun float_le :: "pyfloat \<Rightarrow> pyfloat \<Rightarrow> bool" where
  "float_le (Finite x) (Finite y) = (x \<le> y)"
| "float_le NaN b = False"
| "float_le a NaN = False"
| "float_le NInf b = True"
| "float_le a PInf = True"
| "float_le a b = False"

text \<open>
  \<open>norm.cdf\<close> comes from scipy; the pricer takes the distribution function on the
  real numbers as its first argument \<open>cdf\<close>. At the infinities its values are 1 and 0.
\<close>

fun norm_cdf :: "(real \<Rightarrow> real) \<Rightarrow> pyfloat \<Rightarrow> pyfloat" where
  "norm_cdf cdf (Finite x) = Finite (cdf x)"
| "norm_cdf cdf PInf = Finite 1"
| "norm_cdf cdf NInf = Finite 0"
| "norm_cdf cdf NaN = NaN"

subsection \<open>\<open>discount\<close>, \<open>fx_option_d1\<close>, \<open>fx_option_d2\<close> and \<open>fx_option_price\<close>\<close>

definition discount :: "pyfloat \<Rightarrow> pyfloat \<Rightarrow> error + pyfloat" where
  "discount rate term = math_exp (float_mul (float_neg rate) term)"

definition fx_option_d1 ::
  "pyfloat \<Rightarrow> pyfloat \<Rightarrow> pyfloat \<Rightarrow> pyfloat \<Rightarrow> pyfloat \<Rightarrow> pyfloat \<Rightarrow> error + pyfloat" where
  "fx_option_d1 strike term spot volatility domestic_rate foreign_rate =
     (case float_div spot strike of
        Inl e \<Rightarrow> Inl e
      | Inr q \<Rightarrow>
     (case math_log q of
        Inl e \<Rightarrow> Inl e
      | Inr l \<Rightarrow>
     (case float_pow2 volatility of
        Inl e \<Rightarrow> Inl e
      | Inr v2 \<Rightarrow>
     (case float_div v2 (Finite 2) of
        Inl e \<Rightarrow> Inl e
      | Inr h \<Rightarrow>
          let numerator =
                float_add l (float_mul (float_add (float_sub domestic_rate foreign_rate) h) term)
          in
     (case math_sqrt term of
        Inl e \<Rightarrow> Inl e
      | Inr s \<Rightarrow>
          let denominator = float_mul volatility s
          in float_div numerator denominator)))))"

definition fx_option_d2 :: "pyfloat \<Rightarrow> pyfloat \<Rightarrow> pyfloat \<Rightarrow> error + pyfloat" where
  "fx_option_d2 term volatility d1 =
     (case math_sqrt term of
        Inl e \<Rightarrow> Inl e
      | Inr s \<Rightarrow> Inr (float_sub d1 (float_mul volatility s)))"

definition fx_option_price ::
  "(real \<Rightarrow> real) \<Rightarrow> bool \<Rightarrow> pyfloat \<Rightarrow> date \<Rightarrow> date \<Rightarrow> pyfloat \<Rightarrow> pyfloat \<Rightarrow> pyfloat
     \<Rightarrow> pyfloat \<Rightarrow> error + pyfloat" where
  "fx_option_price cdf call strike expiration spot_date spot volatility domestic_rate foreign_rate =
     (case years_apart spot_date expiration of
        Inl e \<Rightarrow> Inl e
      | Inr years \<Rightarrow>
          let t = Finite years in
     (case fx_option_d1 strike t spot volatility domestic_rate foreign_rate of
        Inl e \<Rightarrow> Inl e
      | Inr d1 \<Rightarrow>
     (case fx_option_d2 t volatility d1 of
        Inl e \<Rightarrow> Inl e
      | Inr d2 \<Rightarrow>
     (case discount foreign_rate t of
        Inl e \<Rightarrow> Inl e
      | Inr df \<Rightarrow>
          let disc_spot = float_mul spot df in
     (case discount domestic_rate t of
        Inl e \<Rightarrow> Inl e
      | Inr dd \<Rightarrow>
          let disc_strike = float_mul strike dd
          in Inr (if call
                  then float_sub (float_mul disc_spot (norm_cdf cdf d1))
                         (float_mul disc_strike (norm_cdf cdf d2))
                  else float_sub (float_mul disc_strike (norm_cdf cdf (float_neg d2)))
                         (float_mul disc_spot (norm_cdf cdf (float_neg d1)))))))))"

subsection \<open>The composition of the pricer, as the specification words it\<close>

text \<open>
  Each step runs when the steps before it have returned; an error of a step is the
  result of the whole.
\<close>

definition then_do :: "error + 'a \<Rightarrow> ('a \<Rightarrow> error + 'b) \<Rightarrow> error + 'b" where
  "then_do r f = (case r of Inl e \<Rightarrow> Inl e | Inr x \<Rightarrow> f x)"

definition price_fx_option_spec ::
  "(real \<Rightarrow> real) \<Rightarrow> bool \<Rightarrow> pyfloat \<Rightarrow> date \<Rightarrow> date \<Rightarrow> pyfloat \<Rightarrow> pyfloat \<Rightarrow> pyfloat
     \<Rightarrow> pyfloat \<Rightarrow> error + pyfloat" where
  "price_fx_option_spec Phi is_call strike expiration_date valuation_date spot volatility
       domestic_rate foreign_rate =
     then_do (years_apart valuation_date expiration_date) (\<lambda>t.
     then_do (fx_option_d1 strike (Finite t) spot volatility domestic_rate foreign_rate) (\<lambda>d1.
     then_do (fx_option_d2 (Finite t) volatility d1) (\<lambda>d2.
     then_do (discount foreign_rate (Finite t)) (\<lambda>foreign_factor.
     then_do (discount domestic_rate (Finite t)) (\<lambda>domestic_factor.
       let discounted_spot = float_mul spot foreign_factor;
           discounted_strike = float_mul strike domestic_factor
       in Inr (if is_call
               then float_sub (float_mul discounted_spot (norm_cdf Phi d1))
                      (float_mul discounted_strike (norm_cdf Phi d2))
               else float_sub (float_mul discounted_strike (norm_cdf Phi (float_neg d2)))
                      (float_mul discounted_spot (norm_cdf Phi (float_neg d1)))))))))"

subsection \<open>Results within the range of doubles\<close>

text \<open>
  A real number is in range when \<open>fl\<close> leaves it as it is: it neither overflows nor
  underflows. The intermediate results of \<open>fx_option_d1\<close> on finite arguments are
  nine; \<open>d1_steps_in_range\<close> says that each of them is in range.
\<close>

definition in_range :: "real \<Rightarrow> bool" where
  "in_range x = (\<bar>x\<bar> < overflow_threshold \<and> (x = 0 \<or> underflow_threshold < \<bar>x\<bar>))"


section \<open>Properties\<close>

declare years_loop.simps [simp del]

subsection \<open>Arithmetic of the proleptic Gregorian calendar\<close>

lemma div_pred:
  fixes y k :: int
  assumes "0 < k"
  shows "(y - 1) div k = y div k - (if y mod k = 0 then 1 else 0)"
proof (cases "y mod k = 0")
  case True
  then have "y = k * (y div k)" by auto
  then have "y - 1 = k * (y div k - 1) + (k - 1)"
    by (simp add: right_diff_distrib)
  moreover have "0 \<le> k - 1" "k - 1 < k" using assms by auto
  ultimately have "(y - 1) div k = y div k - 1"
    by (rule int_div_pos_eq)
  with True show ?thesis by simp
next
  case False
  have "0 \<le> y mod k" "y mod k < k" using assms by auto
  with False have r: "0 \<le> y mod k - 1" "y mod k - 1 < k" by auto
  have "y - 1 = k * (y div k) + (y mod k - 1)" by simp
  then have "(y - 1) div k = y div k"
    using r by (rule int_div_pos_eq)
  with False show ?thesis by simp
qed

lemma mod_0_trans:
  fixes y :: int
  assumes "y mod b = 0" and "a dvd b"
  shows "y mod a = 0"
proof -
  from assms(1) have "b dvd y" by (rule mod_0_imp_dvd)
  with assms(2) have "a dvd y" by (rule dvd_trans)
  then show ?thesis by (rule dvd_imp_mod_0)
qed

lemma days_before_year_diff:
  "days_before_year (y + 1) - days_before_year y =
     365 + (y div 4 - (y - 1) div 4) - (y div 100 - (y - 1) div 100) + (y div 400 - (y - 1) div 400)"
  by (simp add: days_before_year_def Let_def)

lemma leap_indicator:
  fixes a b c :: int
  assumes "a = (if A then 1 else 0)" "b = (if B then 1 else 0)" "c = (if C then 1 else 0)"
    and "C \<Longrightarrow> B" and "B \<Longrightarrow> A"
  shows "a - b + c = (if A \<and> (\<not> B \<or> C) then 1 else 0)"
  using assms by (cases A; cases B; cases C) simp_all

lemma days_before_year_Suc:
  "days_before_year (y + 1) = days_before_year y + 365 + (if is_leap y then 1 else 0)"
proof -
  define a :: int where "a = (if y mod 4 = 0 then 1 else 0)"
  define b :: int where "b = (if y mod 100 = 0 then 1 else 0)"
  define c :: int where "c = (if y mod 400 = 0 then 1 else 0)"
  have "(y - 1) div 4 = y div 4 - a" unfolding a_def by (rule div_pred) simp
  then have a: "y div 4 - (y - 1) div 4 = a" by simp
  have "(y - 1) div 100 = y div 100 - b" unfolding b_def by (rule div_pred) simp
  then have b: "y div 100 - (y - 1) div 100 = b" by simp
  have "(y - 1) div 400 = y div 400 - c" unfolding c_def by (rule div_pred) simp
  then have c: "y div 400 - (y - 1) div 400 = c" by simp
  have cb: "y mod 400 = 0 \<Longrightarrow> y mod 100 = 0" by (erule mod_0_trans) simp
  have ba: "y mod 100 = 0 \<Longrightarrow> y mod 4 = 0" by (erule mod_0_trans) simp
  have "a - b + c = (if is_leap y then 1 else 0)"
    unfolding is_leap_def by (rule leap_indicator [OF a_def b_def c_def cb ba])
  moreover have "days_before_year (y + 1) - days_before_year y = 365 + a - b + c"
    unfolding days_before_year_diff a b c by simp
  ultimately show ?thesis by simp
qed


lemma days_before_year_mono: "y \<le> z \<Longrightarrow> days_before_year y \<le> days_before_year z"
proof (induction z rule: int_ge_induct)
  case base
  show ?case by simp
next
  case (step i)
  have "days_before_year i \<le> days_before_year (i + 1)"
    unfolding days_before_year_Suc by simp
  with step.IH show ?case by simp
qed

lemma month_cases:
  "1 \<le> m \<Longrightarrow> m \<le> 12 \<Longrightarrow>
   m = (1::int) \<or> m = 2 \<or> m = 3 \<or> m = 4 \<or> m = 5 \<or> m = 6 \<or> m = 7 \<or> m = 8 \<or> m = 9 \<or> m = 10 \<or> m = 11 \<or> m = 12"
  by arith

lemma day_of_year_bounds:
  assumes "1 \<le> m" "m \<le> 12" "1 \<le> d" "d \<le> days_in_month y m"
  shows "1 \<le> days_before_month y m + d"
    and "days_before_month y m + d \<le> 365 + (if is_leap y then 1 else 0)"
  using month_cases [OF assms(1,2)] assms(3,4)
  by (auto simp: days_before_month_def days_in_month_def DAYS_BEFORE_MONTH_def DAYS_IN_MONTH_def
      split: if_splits)

lemma days_before_month_mono:
  assumes "1 \<le> m" "m < n" "n \<le> 12"
  shows "days_before_month y m + days_in_month y m \<le> days_before_month y n"
proof -
  from assms have "1 \<le> m" "m \<le> 12" "1 \<le> n" "n \<le> 12" by auto
  from month_cases [OF this(1,2)] month_cases [OF this(3,4)] assms(2) show ?thesis
    by (elim disjE; simp add: days_before_month_def days_in_month_def DAYS_BEFORE_MONTH_def DAYS_IN_MONTH_def)
qed

lemma ymd2ord_year_bounds:
  assumes "1 \<le> m" "m \<le> 12" "1 \<le> d" "d \<le> days_in_month y m"
  shows "days_before_year y < ymd2ord y m d" and "ymd2ord y m d \<le> days_before_year (y + 1)"
  using day_of_year_bounds [OF assms] by (simp_all add: ymd2ord_def days_before_year_Suc)

lemma date_lt_toordinal:
  assumes a: "valid_date a" and b: "valid_date b" and lt: "date_lt a b"
  shows "toordinal a < toordinal b"
proof -
  from a have va: "1 \<le> month a" "month a \<le> 12" "1 \<le> day a" "day a \<le> days_in_month (year a) (month a)"
    by (simp_all add: valid_date_def check_date_fields_def)
  from b have vb: "1 \<le> month b" "month b \<le> 12" "1 \<le> day b" "day b \<le> days_in_month (year b) (month b)"
    by (simp_all add: valid_date_def check_date_fields_def)
  from lt consider (y) "year a < year b"
    | (m) "year a = year b" "month a < month b"
    | (d) "year a = year b" "month a = month b" "day a < day b"
    by (auto simp: date_lt_def)
  then show ?thesis
  proof cases
    case y
    then have "days_before_year (year a + 1) \<le> days_before_year (year b)"
      by (intro days_before_year_mono) simp
    with ymd2ord_year_bounds(2) [OF va] ymd2ord_year_bounds(1) [OF vb]
    show ?thesis by (simp add: toordinal_def)
  next
    case m
    from days_before_month_mono [OF va(1) m(2) vb(2), of "year a"] va(4) vb(3) m(1)
    show ?thesis by (simp add: toordinal_def ymd2ord_def)
  next
    case d
    then show ?thesis by (simp add: toordinal_def ymd2ord_def)
  qed
qed

lemma date_le_toordinal:
  "valid_date a \<Longrightarrow> valid_date b \<Longrightarrow> date_le a b \<Longrightarrow> toordinal a \<le> toordinal b"
  using date_lt_toordinal [of a b] by (auto simp: date_le_def)


lemma date_new_Inr:
  assumes "date_new y m d = Inr x"
  shows "valid_date x" and "year x = y" and "month x = m" and "day x = d"
    and "x = \<lparr>year = y, month = m, day = d\<rparr>"
  using assms by (auto simp: date_new_def valid_date_def split: if_splits)

lemma date_new_valid: "check_date_fields y m d \<Longrightarrow> date_new y m d = Inr \<lparr>year = y, month = m, day = d\<rparr>"
  by (simp add: date_new_def)

lemma date_new_invalid: "\<not> check_date_fields y m d \<Longrightarrow> date_new y m d = Inl ValueError"
  by (simp add: date_new_def)

lemma next_year_later:
  assumes "date_new (year c + 1) (month c) (day c) = Inr nxt"
  shows "toordinal c + 365 \<le> toordinal nxt"
proof -
  from date_new_Inr(2-4) [OF assms]
  have "toordinal nxt = ymd2ord (year c + 1) (month c) (day c)"
    by (simp add: toordinal_def)
  then show ?thesis
    by (simp add: toordinal_def ymd2ord_def days_before_year_Suc days_before_month_def)
qed

lemma next_year_closer:
  assumes new: "date_new (year c + 1) (month c) (day c) = Inr nxt"
    and le: "date_le nxt date2" and v: "valid_date date2"
  shows "0 \<le> days_between date2 nxt" and "days_between date2 nxt < days_between date2 c"
proof -
  from date_le_toordinal [OF date_new_Inr(1) [OF new] v le]
  show "0 \<le> days_between date2 nxt" by (simp add: days_between_def)
  from next_year_later [OF new]
  show "days_between date2 nxt < days_between date2 c" by (simp add: days_between_def)
qed

lemma years_loop_fuel_enough:
  assumes v: "valid_date date2"
  shows "nat (days_between date2 c) < k \<Longrightarrow> years_loop_fuel k c date2 n = Some (years_loop c date2 n)"
proof (induction k arbitrary: c n)
  case 0
  then show ?case by simp
next
  case (Suc k)
  show ?case
  proof (cases "date_new (year c + 1) (month c) (day c)")
    case (Inl e)
    then show ?thesis by (simp add: years_loop.simps [of c])
  next
    case (Inr nxt)
    show ?thesis
    proof (cases "date_le nxt date2")
      case False
      with Inr show ?thesis by (simp add: years_loop.simps [of c])
    next
      case True
      from next_year_closer [OF Inr True v] Suc.prems
      have "nat (days_between date2 nxt) < k" by simp
      then have "years_loop_fuel k nxt date2 (n + 1) = Some (years_loop nxt date2 (n + 1))"
        by (rule Suc.IH)
      with Inr True show ?thesis by (simp add: years_loop.simps [of c])
    qed
  qed
qed

lemma years_loop_result:
  "years_loop c date2 n = Inr (c', n') \<Longrightarrow> valid_date c \<Longrightarrow> date_le c date2 \<Longrightarrow>
   valid_date c' \<and> date_le c' date2 \<and> ((c' = c \<and> n' = n) \<or> n + 1 \<le> n')"
proof (induction c date2 n rule: years_loop.induct)
  case (1 date1 date2 num_years)
  show ?case
  proof (cases "date_new (year date1 + 1) (month date1) (day date1)")
    case (Inl e)
    with "1.prems"(1) show ?thesis by (simp add: years_loop.simps [of date1])
  next
    case (Inr nxt)
    show ?thesis
    proof (cases "date_le nxt date2")
      case False
      with Inr "1.prems" show ?thesis by (simp add: years_loop.simps [of date1])
    next
      case True
      with Inr "1.prems"(1) have "years_loop nxt date2 (num_years + 1) = Inr (c', n')"
        by (simp add: years_loop.simps [of date1])
      from "1.IH" [OF Inr True this date_new_Inr(1) [OF Inr] True]
      show ?thesis by auto
    qed
  qed
qed

lemma date_not_lt_both: "\<not> date_lt a b \<Longrightarrow> \<not> date_lt b a \<Longrightarrow> a = (b::date)"
  by (auto simp: date_lt_def)

lemma date_lt_asym: "date_lt a b \<Longrightarrow> \<not> date_lt b a"
  by (auto simp: date_lt_def)

text \<open>The definitions that evaluate the calendar on numerals.\<close>

lemmas date_eval = date_new_def check_date_fields_def MINYEAR_def MAXYEAR_def days_in_month_def
  DAYS_IN_MONTH_def is_leap_def date_le_def date_lt_def date_gt_def days_between_def
  toordinal_def ymd2ord_def days_before_year_def days_before_month_def DAYS_BEFORE_MONTH_def

subsection \<open>Symmetry of \<open>years_apart\<close>\<close>

text \<open>
  C6: \<open>years_apart a b\<close> equals \<open>years_apart b a\<close> for every pair of dates, the
  raised error included: when the first date is the later one the two are swapped, and
  two dates of which neither is later than the other are the same date.
\<close>

theorem years_apart_symmetric: "years_apart a b = years_apart b a"
proof (cases "date_lt a b")
  case True
  with date_lt_asym [OF True] show ?thesis by (simp add: years_apart_def date_gt_def)
next
  case ab: False
  show ?thesis
  proof (cases "date_lt b a")
    case True
    with ab show ?thesis by (simp add: years_apart_def date_gt_def)
  next
    case False
    with ab have "a = b" by (rule date_not_lt_both)
    then show ?thesis by simp
  qed
qed

theorem years_apart_symmetric_witness:
  "years_apart \<lparr>year = 2019, month = 7, day = 1\<rparr> \<lparr>year = 2019, month = 4, day = 1\<rparr> =
   years_apart \<lparr>year = 2019, month = 4, day = 1\<rparr> \<lparr>year = 2019, month = 7, day = 1\<rparr>"
  by (rule years_apart_symmetric)

subsection \<open>A date of February 29\<close>

text \<open>
  The year after a leap year is no leap year, so the date one calendar year after a
  February 29 does not exist: whenever the earlier of the two dates is a February 29,
  \<open>years_apart\<close> raises ValueError at the first construction of \<open>next_year\<close>.
\<close>

lemma mod4_next: "(y::int) mod 4 = 0 \<Longrightarrow> (y + 1) mod 4 \<noteq> 0"
  by presburger

lemma feb29_next_year:
  assumes "check_date_fields y 2 29"
  shows "\<not> check_date_fields (y + 1) 2 29"
proof -
  from assms have "29 \<le> days_in_month y 2" by (simp add: check_date_fields_def)
  then have "is_leap y" by (simp add: days_in_month_def DAYS_IN_MONTH_def split: if_splits)
  then have "y mod 4 = 0" by (simp add: is_leap_def)
  then have "(y + 1) mod 4 \<noteq> 0" by (rule mod4_next)
  then have "\<not> is_leap (y + 1)" by (simp add: is_leap_def)
  then have "days_in_month (y + 1) 2 = 28" by (simp add: days_in_month_def DAYS_IN_MONTH_def)
  then show ?thesis by (simp add: check_date_fields_def)
qed

lemma years_apart_feb29:
  assumes "valid_date a" and "month a = 2" and "day a = 29" and "\<not> date_gt a b"
  shows "years_apart a b = Inl ValueError"
proof -
  from assms(1-3) have "check_date_fields (year a) 2 29" by (simp add: valid_date_def)
  then have "\<not> check_date_fields (year a + 1) 2 29" by (rule feb29_next_year)
  then have "date_new (year a + 1) (month a) (day a) = Inl ValueError"
    using assms(2,3) by (simp add: date_new_def)
  then have "years_loop a b 0 = Inl ValueError"
    by (subst years_loop.simps) simp
  with assms(4) show ?thesis by (simp add: years_apart_def)
qed

text \<open>
  C5: \<open>years_apart\<close> does not return on every pair of dates. From 29 February 2020 to
  1 March 2020, both of them dates that the constructor accepts, the first
  \<open>next_year\<close> is \<open>date(2021, 2, 29)\<close>, which raises ValueError.
\<close>

theorem years_apart_feb29_raises:
  "date_new 2020 2 29 = Inr \<lparr>year = 2020, month = 2, day = 29\<rparr> \<and>
   date_new 2020 3 1 = Inr \<lparr>year = 2020, month = 3, day = 1\<rparr> \<and>
   years_apart \<lparr>year = 2020, month = 2, day = 29\<rparr> \<lparr>year = 2020, month = 3, day = 1\<rparr>
     = Inl ValueError"
  by (simp add: years_apart_def years_loop.simps date_eval)

subsection \<open>The range of doubles\<close>

lemma underflow_threshold_pos: "0 < underflow_threshold"
  by (simp add: underflow_threshold_def)


lemma overflow_threshold_ge: "2 ^ 1023 \<le> overflow_threshold"
proof -
  have "(2::real) ^ 1024 = 2 ^ 1023 + 2 ^ 1023" by simp
  moreover have "(2::real) ^ 970 \<le> 2 ^ 1023" by (rule power_increasing) simp_all
  ultimately show ?thesis by (simp add: overflow_threshold_def)
qed


lemma overflow_threshold_gt_1: "1 < overflow_threshold"
proof -
  have "(1::real) < 2 ^ 1023" by (rule one_less_power) simp_all
  with overflow_threshold_ge show ?thesis by linarith
qed

lemma fl_in_range: "in_range x \<Longrightarrow> fl x = Finite x"
  using underflow_threshold_pos by (auto simp: in_range_def fl_def)

lemma fl_0: "fl 0 = Finite 0"
  using underflow_threshold_pos overflow_threshold_gt_1 by (simp add: fl_def)


lemma fl_mono: "x \<le> y \<Longrightarrow> float_le (fl x) (fl y)"
  using underflow_threshold_pos overflow_threshold_gt_1 by (auto simp: fl_def)

lemma fl_not_NaN: "fl x \<noteq> NaN"
  by (simp add: fl_def)

lemma exp_1_ge: "5 / 2 \<le> exp (1::real)"
  using exp_lower_Taylor_quadratic [of "1::real"] by simp

lemma exp_1000_ge: "(2::real) ^ 1250 \<le> exp 1000"
proof -
  have "(2::real) ^ 5 \<le> (5 / 2) ^ 4" by (simp add: power_divide)
  then have "((2::real) ^ 5) ^ 250 \<le> ((5 / 2) ^ 4) ^ 250" by (rule power_mono) simp
  then have "(2::real) ^ 1250 \<le> (5 / 2) ^ 1000" by (simp only: power_mult [symmetric]) simp
  also have "\<dots> \<le> exp 1 ^ 1000" using exp_1_ge by (rule power_mono) simp
  also have "\<dots> = exp (1000::real)" using exp_of_nat_mult [of 1000 "1::real"] by simp
  finally show ?thesis .
qed


lemma exp_minus_1000_underflows: "exp (- 1000) \<le> underflow_threshold"
proof -
  have "(2::real) ^ 1075 \<le> 2 ^ 1250" by (rule power_increasing) simp_all
  with exp_1000_ge have "(2::real) ^ 1075 \<le> exp 1000" by linarith
  then have "1 / exp (1000::real) \<le> 1 / 2 ^ 1075"
    by (intro divide_left_mono) simp_all
  then show ?thesis by (simp add: underflow_threshold_def exp_minus inverse_eq_divide)
qed

lemma math_exp_small:
  assumes "0 \<le> x" and "exp (- x) \<le> underflow_threshold"
  shows "math_exp (Finite (- x)) = Inr (Finite 0)"
proof -
  have "exp (- x) \<le> 1" using assms(1) by simp
  with overflow_threshold_gt_1 have "\<not> overflow_threshold \<le> exp (- x)" by linarith
  moreover have "0 < exp (- x)" by simp
  with overflow_threshold_gt_1 have "\<not> exp (- x) \<le> - overflow_threshold" by linarith
  ultimately have "fl (exp (- x)) = Finite 0" "\<not> overflow_threshold \<le> exp (- x)"
    using assms(2) by (simp_all add: fl_def)
  then show ?thesis by simp
qed

lemma in_range_small: "underflow_threshold < \<bar>x\<bar> \<Longrightarrow> \<bar>x\<bar> \<le> 2 ^ 1023 \<Longrightarrow> in_range x"
proof -
  assume a: "underflow_threshold < \<bar>x\<bar>" and b: "\<bar>x\<bar> \<le> 2 ^ 1023"
  have "(2::real) ^ 970 < 2 ^ 1023" by (rule power_strict_increasing) simp_all
  moreover have "(2::real) ^ 1024 = 2 ^ 1023 + 2 ^ 1023" by simp
  ultimately have "(2::real) ^ 1023 < overflow_threshold" by (simp add: overflow_threshold_def)
  with a b show ?thesis by (simp add: in_range_def)
qed

lemma in_range_minus: "in_range (- x) = in_range x"
  by (simp add: in_range_def)

lemma in_range_0: "in_range 0"
  using overflow_threshold_gt_1 by (simp add: in_range_def)

lemma discount_value:
  assumes "in_range (rate * term)" and "in_range (exp (- (rate * term)))"
  shows "discount (Finite rate) (Finite term) = Inr (Finite (exp (- (rate * term))))"
proof -
  from assms(1) have "in_range (- (rate * term))" by (simp only: in_range_minus)
  then have "fl (- (rate * term)) = Finite (- (rate * term))" by (rule fl_in_range)
  moreover from assms(2) have "\<not> overflow_threshold \<le> exp (- (rate * term))"
    by (simp add: in_range_def)
  moreover from assms(2) have "fl (exp (- (rate * term))) = Finite (exp (- (rate * term)))"
    by (rule fl_in_range)
  ultimately show ?thesis by (simp add: discount_def)
qed





subsection \<open>\<open>discount\<close>\<close>

lemma in_range_exp_minus:
  assumes "0 \<le> x" and "x \<le> 1 / 2"
  shows "in_range (exp (- x))"
proof (rule in_range_small)
  have "1 + (- x) \<le> exp (- x)" by (rule exp_ge_add_one_self)
  with assms(2) have "1 / 2 \<le> exp (- x)" by linarith
  moreover have "underflow_threshold < 1 / 2" by (simp add: underflow_threshold_def)
  ultimately show "underflow_threshold < \<bar>exp (- x)\<bar>" by simp
  have "exp (- x) \<le> 1" using assms(1) by simp
  moreover have "(1::real) \<le> 2 ^ 1023" by (rule one_le_power) simp
  ultimately have "exp (- x) \<le> 2 ^ 1023" by (rule order_trans)
  moreover have "\<bar>exp (- x)\<bar> = exp (- x)" by simp
  ultimately show "\<bar>exp (- x)\<bar> \<le> 2 ^ 1023" by (simp only:)
qed

lemma in_range_ratio: "underflow_threshold < 1 / 1000"
  by (simp add: underflow_threshold_def)

lemma in_range_rational:
  assumes "1 / 1000 \<le> \<bar>x\<bar>" and "\<bar>x\<bar> \<le> 10000"
  shows "in_range x"
proof (rule in_range_small)
  from in_range_ratio assms(1) show "underflow_threshold < \<bar>x\<bar>" by linarith
  have "(2::real) ^ 14 \<le> 2 ^ 1023" by (rule power_increasing) simp_all
  moreover have "(10000::real) \<le> 2 ^ 14" by simp
  ultimately have "(10000::real) \<le> 2 ^ 1023" by (rule order_trans [rotated])
  with assms(2) show "\<bar>x\<bar> \<le> 2 ^ 1023" by (rule order_trans)
qed

lemma in_range_exp_plus:
  assumes "0 \<le> x" and "x \<le> 1"
  shows "in_range (exp x)"
proof (rule in_range_rational)
  have p: "\<bar>exp x\<bar> = exp x" by simp
  from assms(1) have "1 \<le> exp x" by simp
  then show "1 / 1000 \<le> \<bar>exp x\<bar>" unfolding p by linarith
  from assms(2) have "exp x \<le> exp 1" by simp
  moreover have "exp (1::real) \<le> 3" by (rule exp_le)
  ultimately show "\<bar>exp x\<bar> \<le> 10000" unfolding p by linarith
qed







lemma math_exp_not_NaN: "math_exp (Finite x) = Inr a \<Longrightarrow> a \<noteq> NaN"
  by (auto simp: fl_not_NaN split: if_splits)

lemma math_exp_mono:
  assumes "float_le u v" and "math_exp u = Inr a" and "math_exp v = Inr b"
  shows "float_le a b"
proof (cases u)
  case (Finite x)
  note u = this
  show ?thesis
  proof (cases v)
    case (Finite y)
    with u assms(1) have "exp x \<le> exp y" by simp
    then have "float_le (fl (exp x)) (fl (exp y))" by (rule fl_mono)
    with u Finite assms(2,3) show ?thesis by (auto split: if_splits)
  next
    case PInf
    with u assms(2,3) math_exp_not_NaN [of x a] show ?thesis by (cases a) auto
  next
    case NInf
    with u assms(1) show ?thesis by simp
  next
    case NaN
    with u assms(1) show ?thesis by simp
  qed
next
  case PInf
  with assms show ?thesis by (cases v) auto
next
  case NInf
  note u = this
  show ?thesis
  proof (cases v)
    case (Finite y)
    have "float_le (fl 0) (fl (exp y))" by (rule fl_mono) simp
    with u Finite assms(2,3) show ?thesis by (auto simp: fl_0 split: if_splits)
  qed (use u assms in auto)
next
  case NaN
  with assms(1) show ?thesis by simp
qed

lemma discount_antimono:
  assumes "x2 \<le> x1"
    and "math_exp (fl x1) = Inr a" and "math_exp (fl x2) = Inr b"
  shows "float_le b a"
  using fl_mono [OF assms(1)] assms(3,2) by (rule math_exp_mono)


text \<open>
  C9, as the code has it: for a positive rate and terms \<open>t1 < t2\<close> on which
  \<open>discount\<close> returns, the factor at \<open>t2\<close> is at most the factor at \<open>t1\<close>; for a
  negative rate it is at least that. The order is not strict.
\<close>

theorem discount_monotone:
  "(0 < rate \<and> t1 < t2 \<and> discount (Finite rate) (Finite t1) = Inr a \<and>
      discount (Finite rate) (Finite t2) = Inr b \<longrightarrow> float_le b a) \<and>
   (rate < 0 \<and> t1 < t2 \<and> discount (Finite rate) (Finite t1) = Inr a \<and>
      discount (Finite rate) (Finite t2) = Inr b \<longrightarrow> float_le a b)"
proof (intro conjI impI)
  assume h: "0 < rate \<and> t1 < t2 \<and> discount (Finite rate) (Finite t1) = Inr a \<and>
      discount (Finite rate) (Finite t2) = Inr b"
  then have "- rate * t2 \<le> - rate * t1" by simp
  moreover from h have "math_exp (fl (- rate * t1)) = Inr a" "math_exp (fl (- rate * t2)) = Inr b"
    by (simp_all add: discount_def)
  ultimately show "float_le b a" by (rule discount_antimono)
next
  assume h: "rate < 0 \<and> t1 < t2 \<and> discount (Finite rate) (Finite t1) = Inr a \<and>
      discount (Finite rate) (Finite t2) = Inr b"
  then have "- rate * t1 \<le> - rate * t2" by (simp add: mult_le_cancel_left)
  moreover from h have "math_exp (fl (- rate * t2)) = Inr b" "math_exp (fl (- rate * t1)) = Inr a"
    by (simp_all add: discount_def)
  ultimately show "float_le a b" by (rule discount_antimono)
qed

theorem discount_monotone_witness:
  "discount (Finite (3 / 100)) (Finite 1) = Inr (Finite (exp (- (3 / 100 * 1)))) \<and>
   discount (Finite (3 / 100)) (Finite 2) = Inr (Finite (exp (- (3 / 100 * 2)))) \<and>
   float_le (Finite (exp (- (3 / 100 * 2)))) (Finite (exp (- (3 / 100 * 1)))) \<and>
   discount (Finite (- 3 / 100)) (Finite 1) = Inr (Finite (exp (- (- 3 / 100 * 1)))) \<and>
   discount (Finite (- 3 / 100)) (Finite 2) = Inr (Finite (exp (- (- 3 / 100 * 2)))) \<and>
   float_le (Finite (exp (- (- 3 / 100 * 1)))) (Finite (exp (- (- 3 / 100 * 2))))"
proof -
  have a1: "discount (Finite (3 / 100)) (Finite 1) = Inr (Finite (exp (- (3 / 100 * 1))))"
    by (rule discount_value, rule in_range_rational, simp, simp, rule in_range_exp_minus, simp, simp)
  have a2: "discount (Finite (3 / 100)) (Finite 2) = Inr (Finite (exp (- (3 / 100 * 2))))"
    by (rule discount_value, rule in_range_rational, simp, simp, rule in_range_exp_minus, simp, simp)
  have e1: "in_range (exp (3 / 100 :: real))" and e2: "in_range (exp (6 / 100 :: real))"
    by (rule in_range_exp_plus, simp, simp)+
  have b1: "discount (Finite (- 3 / 100)) (Finite 1) = Inr (Finite (exp (- (- 3 / 100 * 1))))"
    by (rule discount_value, rule in_range_rational, simp, simp) (use e1 in simp)
  have b2: "discount (Finite (- 3 / 100)) (Finite 2) = Inr (Finite (exp (- (- 3 / 100 * 2))))"
    by (rule discount_value, rule in_range_rational, simp, simp) (use e2 in simp)
  from discount_monotone [of "3 / 100" 1 2 "Finite (exp (- (3 / 100 * 1)))" "Finite (exp (- (3 / 100 * 2)))"] a1 a2
  have m1: "float_le (Finite (exp (- (3 / 100 * 2)))) (Finite (exp (- (3 / 100 * 1))))" by simp
  from discount_monotone [of "- 3 / 100" 1 2 "Finite (exp (- (- 3 / 100 * 1)))" "Finite (exp (- (- 3 / 100 * 2)))"] b1 b2
  have m2: "float_le (Finite (exp (- (- 3 / 100 * 1)))) (Finite (exp (- (- 3 / 100 * 2))))" by simp
  from a1 a2 m1 b1 b2 m2 show ?thesis by blast
qed


text \<open>
  It is not strict: \<open>discount(1.0, 1000.0)\<close> and \<open>discount(1.0, 2000.0)\<close> are both
  0.0, for \<open>math.exp\<close> underflows on both.
\<close>

theorem discount_monotone_counterexample:
  "discount (Finite 1) (Finite 1000) = Inr (Finite 0) \<and>
   discount (Finite 1) (Finite 2000) = Inr (Finite 0)"
proof -
  have r1: "fl (- 1000) = Finite (- 1000)"
    by (rule fl_in_range, rule in_range_rational) simp_all
  have r2: "fl (- 2000) = Finite (- 2000)"
    by (rule fl_in_range, rule in_range_rational) simp_all
  have "exp (- 2000 :: real) \<le> exp (- 1000)" by simp
  with exp_minus_1000_underflows have u: "exp (- 2000 :: real) \<le> underflow_threshold" by linarith
  have m1: "math_exp (Finite (- 1000)) = Inr (Finite 0)"
    by (rule math_exp_small) (simp_all add: exp_minus_1000_underflows)
  have m2: "math_exp (Finite (- 2000)) = Inr (Finite 0)"
    by (rule math_exp_small) (simp_all add: u)
  have d1: "discount (Finite 1) (Finite 1000) = math_exp (fl (- 1000))"
    and d2: "discount (Finite 1) (Finite 2000) = math_exp (fl (- 2000))"
    by (simp_all add: discount_def)
  show ?thesis by (simp only: d1 d2 r1 r2 m1 m2)
qed

subsection \<open>\<open>fx_option_d1\<close>\<close>




























subsection \<open>\<open>fx_option_price\<close>\<close>

text \<open>
  C1: on every input \<open>fx_option_price\<close> is the composition of the specification: the
  year fraction of the two dates, then d1, then d2 from d1, the two discounted amounts,
  and the call or the put formula over the distribution function; an error of a step is
  the error of the pricer.
\<close>

theorem fx_option_price_composition:
  "fx_option_price Phi is_call strike expiration_date valuation_date spot volatility
       domestic_rate foreign_rate =
   price_fx_option_spec Phi is_call strike expiration_date valuation_date spot volatility
       domestic_rate foreign_rate"
  by (simp add: fx_option_price_def price_fx_option_spec_def then_do_def
      split: sum.splits)

text \<open>
  C2: the pricer does not price every option whose valuation date is before its
  expiration date. With the valuation date 29 February 2020 and the expiration date
  1 June 2020, \<open>years_apart\<close> raises ValueError, and so do the call and the put, whatever
  the distribution function: there are no two prices to compare.
\<close>

theorem fx_option_price_feb29_raises:
  "valid_date \<lparr>year = 2020, month = 2, day = 29\<rparr> \<and>
   valid_date \<lparr>year = 2020, month = 6, day = 1\<rparr> \<and>
   date_lt \<lparr>year = 2020, month = 2, day = 29\<rparr> \<lparr>year = 2020, month = 6, day = 1\<rparr> \<and>
   fx_option_price cdf True (Finite 152) \<lparr>year = 2020, month = 6, day = 1\<rparr>
     \<lparr>year = 2020, month = 2, day = 29\<rparr> (Finite 150) (Finite (13 / 100)) (Finite (3 / 100))
     (Finite (4 / 100)) = Inl ValueError \<and>
   fx_option_price cdf False (Finite 152) \<lparr>year = 2020, month = 6, day = 1\<rparr>
     \<lparr>year = 2020, month = 2, day = 29\<rparr> (Finite 150) (Finite (13 / 100)) (Finite (3 / 100))
     (Finite (4 / 100)) = Inl ValueError"
proof -
  have "years_apart \<lparr>year = 2020, month = 2, day = 29\<rparr> \<lparr>year = 2020, month = 6, day = 1\<rparr>
      = Inl ValueError"
    by (simp add: years_apart_def years_loop.simps date_eval)
  then show ?thesis
    by (simp add: fx_option_price_def valid_date_def date_eval)
qed

subsection \<open>Whole years\<close>

lemma days_in_month_feb: "28 \<le> days_in_month y 2 \<and> days_in_month y 2 \<le> 29"
  by (simp add: days_in_month_def DAYS_IN_MONTH_def)

lemma days_in_month_not_feb: "m \<noteq> 2 \<Longrightarrow> days_in_month y m = days_in_month y' m"
  by (simp add: days_in_month_def)

lemma check_date_fields_other_year:
  assumes c: "check_date_fields y m d" and nf: "\<not> (m = 2 \<and> d = 29)" and y': "1 \<le> y'" "y' \<le> 9999"
  shows "check_date_fields y' m d"
proof -
  from c have md: "1 \<le> m" "m \<le> 12" "1 \<le> d" "d \<le> days_in_month y m"
    by (simp_all add: check_date_fields_def)
  have "d \<le> days_in_month y' m"
  proof (cases "m = 2")
    case True
    with md(4) days_in_month_feb [of y] have "d \<le> 29" by simp
    with nf True have "d \<le> 28" by simp
    with days_in_month_feb [of y'] True show ?thesis by simp
  next
    case False
    from days_in_month_not_feb [OF False, of y y'] md(4) show ?thesis by simp
  qed
  with md y' show ?thesis by (simp add: check_date_fields_def MINYEAR_def MAXYEAR_def)
qed


lemma years_loop_whole:
  assumes "check_date_fields y m d" and "\<not> (m = 2 \<and> d = 29)" and "y + int N < 9999"
  shows "years_loop \<lparr>year = y, month = m, day = d\<rparr> \<lparr>year = y + int N, month = m, day = d\<rparr> n =
    Inr (\<lparr>year = y + int N, month = m, day = d\<rparr>, n + real N)"
  using assms
proof (induction N arbitrary: y n)
  case 0
  from "0.prems"(1) have "1 \<le> y" by (simp add: check_date_fields_def MINYEAR_def)
  with "0.prems" have "check_date_fields (y + 1) m d"
    by (intro check_date_fields_other_year [OF "0.prems"(1,2)]) simp_all
  then have new: "date_new (y + 1) m d = Inr \<lparr>year = y + 1, month = m, day = d\<rparr>"
    by (rule date_new_valid)
  have nle: "\<not> date_le \<lparr>year = y + 1, month = m, day = d\<rparr> \<lparr>year = y, month = m, day = d\<rparr>"
    by (simp add: date_le_def date_lt_def)
  have "years_loop \<lparr>year = y, month = m, day = d\<rparr> \<lparr>year = y, month = m, day = d\<rparr> n =
     Inr (\<lparr>year = y, month = m, day = d\<rparr>, n)"
    by (subst years_loop.simps) (simp add: new nle)
  then show ?case by simp
next
  case (Suc N)
  let ?target = "\<lparr>year = y + int (Suc N), month = m, day = d\<rparr>"
  from Suc.prems(1) have "1 \<le> y" by (simp add: check_date_fields_def MINYEAR_def)
  with Suc.prems have v: "check_date_fields (y + 1) m d"
    by (intro check_date_fields_other_year [OF Suc.prems(1,2)]) simp_all
  then have new: "date_new (y + 1) m d = Inr \<lparr>year = y + 1, month = m, day = d\<rparr>"
    by (rule date_new_valid)
  have le: "date_le \<lparr>year = y + 1, month = m, day = d\<rparr> ?target"
    by (cases N) (simp_all add: date_le_def date_lt_def)
  have e1: "y + 1 + int N = y + int (Suc N)" by simp
  have e2: "n + 1 + real N = n + real (Suc N)" by simp
  from Suc.prems(3) have "y + 1 + int N < 9999" by simp
  from Suc.IH [OF v Suc.prems(2) this, of "n + 1"]
  have rec: "years_loop \<lparr>year = y + 1, month = m, day = d\<rparr> ?target (n + 1) = Inr (?target, n + real (Suc N))"
    unfolding e1 e2 .
  have "years_loop \<lparr>year = y, month = m, day = d\<rparr> ?target n =
      years_loop \<lparr>year = y + 1, month = m, day = d\<rparr> ?target (n + 1)"
    apply (subst years_loop.simps)
    using new le apply simp
    done
  with rec show ?case by simp
qed

text \<open>
  C4, as the code has it: for a date D that the constructor accepts, that is not a
  February 29 and whose year plus N is below 9999, \<open>years_apart\<close> of D and of the
  date N calendar years after D (same month and day) is exactly N.
\<close>

theorem years_apart_whole_years:
  assumes "valid_date D" and "\<not> (month D = 2 \<and> day D = 29)" and "year D + int N < 9999"
  shows "years_apart D (D\<lparr>year := year D + int N\<rparr>) = Inr (real N)"
proof -
  obtain y m d where D: "D = \<lparr>year = y, month = m, day = d\<rparr>" by (cases D) auto
  from assms have "check_date_fields y m d" "\<not> (m = 2 \<and> d = 29)" "y + int N < 9999"
    by (simp_all add: D valid_date_def)
  from years_loop_whole [OF this, of 0] show ?thesis
    by (simp add: D years_apart_def date_gt_def date_lt_def days_between_def)
qed

theorem years_apart_whole_years_witness:
  "years_apart \<lparr>year = 1959, month = 5, day = 3\<rparr> \<lparr>year = 1960, month = 5, day = 3\<rparr> = Inr 1"
  using years_apart_whole_years [of "\<lparr>year = 1959, month = 5, day = 3\<rparr>" 1]
  by (simp add: valid_date_def check_date_fields_def MINYEAR_def MAXYEAR_def days_in_month_def DAYS_IN_MONTH_def)

text \<open>
  The bounds are needed. From 29 February 2020 to 29 February 2024, four calendar years
  apart, the first \<open>next_year\<close> is \<open>date(2021, 2, 29)\<close>; from 1 January 9999 to
  itself it is \<open>date(10000, 1, 1)\<close>. Both raise ValueError.
\<close>

theorem years_apart_whole_years_counterexample:
  "valid_date \<lparr>year = 2020, month = 2, day = 29\<rparr> \<and>
   valid_date \<lparr>year = 2024, month = 2, day = 29\<rparr> \<and>
   years_apart \<lparr>year = 2020, month = 2, day = 29\<rparr> \<lparr>year = 2024, month = 2, day = 29\<rparr> = Inl ValueError \<and>
   valid_date \<lparr>year = 9999, month = 1, day = 1\<rparr> \<and>
   years_apart \<lparr>year = 9999, month = 1, day = 1\<rparr> \<lparr>year = 9999, month = 1, day = 1\<rparr> = Inl ValueError"
  by (simp add: years_apart_def years_loop.simps valid_date_def date_eval)

subsection \<open>The last, partial year\<close>

text \<open>
  C7: when the loop has ended with the cursor \<open>cur\<close> and the count \<open>n\<close>, the result is
  \<open>n\<close> plus the days from the cursor to the later date divided by 365, whatever the
  year. So from 1 January 2004 to 2 January 2005 the result is 1 + 1/365, and from
  1 January 2004 to 31 December 2004, 365 days within the leap year 2004, it is 365/365.
\<close>

theorem years_apart_remainder_365:
  "(\<not> date_gt a b \<and> years_loop a b 0 = Inr (cur, n) \<longrightarrow>
      years_apart a b = Inr (n + real_of_int (days_between b cur) / 365)) \<and>
   years_apart \<lparr>year = 2004, month = 1, day = 1\<rparr> \<lparr>year = 2005, month = 1, day = 2\<rparr>
     = Inr (1 + 1 / 365) \<and>
   years_apart \<lparr>year = 2004, month = 1, day = 1\<rparr> \<lparr>year = 2004, month = 12, day = 31\<rparr>
     = Inr (365 / 365)"
proof (intro conjI impI)
  assume "\<not> date_gt a b \<and> years_loop a b 0 = Inr (cur, n)"
  then show "years_apart a b = Inr (n + real_of_int (days_between b cur) / 365)"
    by (simp add: years_apart_def)
next
  show "years_apart \<lparr>year = 2004, month = 1, day = 1\<rparr> \<lparr>year = 2005, month = 1, day = 2\<rparr>
     = Inr (1 + 1 / 365)"
    by (simp add: years_apart_def years_loop.simps date_eval)
next
  show "years_apart \<lparr>year = 2004, month = 1, day = 1\<rparr> \<lparr>year = 2004, month = 12, day = 31\<rparr>
     = Inr (365 / 365)"
    by (simp add: years_apart_def years_loop.simps date_eval)
qed

theorem years_apart_remainder_365_witness:
  "\<not> date_gt \<lparr>year = 2004, month = 1, day = 1\<rparr> \<lparr>year = 2005, month = 1, day = 2\<rparr> \<and>
   years_loop \<lparr>year = 2004, month = 1, day = 1\<rparr> \<lparr>year = 2005, month = 1, day = 2\<rparr> 0
     = Inr (\<lparr>year = 2005, month = 1, day = 1\<rparr>, 1) \<and>
   days_between \<lparr>year = 2005, month = 1, day = 2\<rparr> \<lparr>year = 2005, month = 1, day = 1\<rparr> = 1 \<and>
   years_apart \<lparr>year = 2004, month = 1, day = 1\<rparr> \<lparr>year = 2005, month = 1, day = 2\<rparr>
     = Inr (1 + real_of_int (days_between \<lparr>year = 2005, month = 1, day = 2\<rparr>
          \<lparr>year = 2005, month = 1, day = 1\<rparr>) / 365)"
proof -
  have g: "\<not> date_gt \<lparr>year = 2004, month = 1, day = 1\<rparr> \<lparr>year = 2005, month = 1, day = 2\<rparr>"
    by (simp add: date_eval)
  have l: "years_loop \<lparr>year = 2004, month = 1, day = 1\<rparr> \<lparr>year = 2005, month = 1, day = 2\<rparr> 0
     = Inr (\<lparr>year = 2005, month = 1, day = 1\<rparr>, 1)"
    by (simp add: years_loop.simps date_eval)
  have d: "days_between \<lparr>year = 2005, month = 1, day = 2\<rparr> \<lparr>year = 2005, month = 1, day = 1\<rparr> = 1"
    by (simp add: date_eval)
  from years_apart_remainder_365 [of "\<lparr>year = 2004, month = 1, day = 1\<rparr>"
      "\<lparr>year = 2005, month = 1, day = 2\<rparr>" "\<lparr>year = 2005, month = 1, day = 1\<rparr>" 1] g l
  have "years_apart \<lparr>year = 2004, month = 1, day = 1\<rparr> \<lparr>year = 2005, month = 1, day = 2\<rparr>
     = Inr (1 + real_of_int (days_between \<lparr>year = 2005, month = 1, day = 2\<rparr>
          \<lparr>year = 2005, month = 1, day = 1\<rparr>) / 365)"
    by blast
  with g l d show ?thesis by blast
qed

subsection \<open>Termination of the loop\<close>

text \<open>
  C10: the loop of \<open>years_apart\<close> ends. Run with a bound of one more than the number of
  days from the cursor to the later date, the loop ends within the bound, with the result
  of \<open>years_loop\<close>. For whenever \<open>next_year\<close> is built and is not after the later
  date, it is the cursor moved by one calendar year, and the days from it to the later
  date are fewer than those from the cursor, and not negative.
\<close>

theorem years_loop_terminates:
  assumes "valid_date date2"
  shows "years_loop_fuel (Suc (nat (days_between date2 date1))) date1 date2 n
      = Some (years_loop date1 date2 n) \<and>
    (\<forall>next_year.
       date_new (year date1 + 1) (month date1) (day date1) = Inr next_year \<and>
       date_le next_year date2 \<longrightarrow>
         next_year = \<lparr>year = year date1 + 1, month = month date1, day = day date1\<rparr> \<and>
         0 \<le> days_between date2 next_year \<and>
         days_between date2 next_year < days_between date2 date1)"
proof (intro conjI allI impI)
  show "years_loop_fuel (Suc (nat (days_between date2 date1))) date1 date2 n
      = Some (years_loop date1 date2 n)"
    by (rule years_loop_fuel_enough [OF assms]) simp
next
  fix next_year
  assume h: "date_new (year date1 + 1) (month date1) (day date1) = Inr next_year \<and>
       date_le next_year date2"
  then have new: "date_new (year date1 + 1) (month date1) (day date1) = Inr next_year"
    and le: "date_le next_year date2" by simp_all
  from date_new_Inr(5) [OF new]
  show "next_year = \<lparr>year = year date1 + 1, month = month date1, day = day date1\<rparr>" .
  from next_year_closer [OF new le assms]
  show "0 \<le> days_between date2 next_year"
    and "days_between date2 next_year < days_between date2 date1" .
qed

theorem years_loop_terminates_witness:
  "valid_date \<lparr>year = 2005, month = 1, day = 2\<rparr> \<and>
   years_loop_fuel
       (Suc (nat (days_between \<lparr>year = 2005, month = 1, day = 2\<rparr> \<lparr>year = 2004, month = 1, day = 1\<rparr>)))
       \<lparr>year = 2004, month = 1, day = 1\<rparr> \<lparr>year = 2005, month = 1, day = 2\<rparr> 0
     = Some (Inr (\<lparr>year = 2005, month = 1, day = 1\<rparr>, 1)) \<and>
   date_new 2005 1 1 = Inr \<lparr>year = 2005, month = 1, day = 1\<rparr> \<and>
   date_le \<lparr>year = 2005, month = 1, day = 1\<rparr> \<lparr>year = 2005, month = 1, day = 2\<rparr> \<and>
   days_between \<lparr>year = 2005, month = 1, day = 2\<rparr> \<lparr>year = 2005, month = 1, day = 1\<rparr> = 1 \<and>
   days_between \<lparr>year = 2005, month = 1, day = 2\<rparr> \<lparr>year = 2004, month = 1, day = 1\<rparr> = 367"
proof -
  have v: "valid_date \<lparr>year = 2005, month = 1, day = 2\<rparr>"
    by (simp add: valid_date_def date_eval)
  have l: "years_loop \<lparr>year = 2004, month = 1, day = 1\<rparr> \<lparr>year = 2005, month = 1, day = 2\<rparr> 0
     = Inr (\<lparr>year = 2005, month = 1, day = 1\<rparr>, 1)"
    by (simp add: years_loop.simps date_eval)
  have rest: "date_new 2005 1 1 = Inr \<lparr>year = 2005, month = 1, day = 1\<rparr>"
    "date_le \<lparr>year = 2005, month = 1, day = 1\<rparr> \<lparr>year = 2005, month = 1, day = 2\<rparr>"
    "days_between \<lparr>year = 2005, month = 1, day = 2\<rparr> \<lparr>year = 2005, month = 1, day = 1\<rparr> = 1"
    "days_between \<lparr>year = 2005, month = 1, day = 2\<rparr> \<lparr>year = 2004, month = 1, day = 1\<rparr> = 367"
    by (simp_all add: date_eval)
  from years_loop_terminates [OF v, of "\<lparr>year = 2004, month = 1, day = 1\<rparr>" 0]
  have "years_loop_fuel
       (Suc (nat (days_between \<lparr>year = 2005, month = 1, day = 2\<rparr> \<lparr>year = 2004, month = 1, day = 1\<rparr>)))
       \<lparr>year = 2004, month = 1, day = 1\<rparr> \<lparr>year = 2005, month = 1, day = 2\<rparr> 0
     = Some (Inr (\<lparr>year = 2005, month = 1, day = 1\<rparr>, 1))"
    unfolding l by (rule conjunct1)
  with v rest show ?thesis by blast
qed

end
